theory Spec2Isabelle
  imports Complex_Main
begin

section \<open>MechWolf protocols: the procedure builder and the timeline compiler\<close>

text \<open>
  A shallow embedding of \<^verbatim>\<open>src/mechwolf/core/protocol.py\<close> (class \<^verbatim>\<open>Protocol\<close>).
  Python objects that the code mutates are threaded through explicitly: every method
  returns its result together with the protocol it leaves behind, also when it raises.
  Times are Python floats in the source; the model uses exact reals, so NaN, infinities
  and rounding are outside it. Advisories (\<^verbatim>\<open>warn\<close>) do not influence control flow and
  are not modelled.
\<close>

subsection \<open>Values, components, records\<close>

text \<open>A quantity of the units library (\<^verbatim>\<open>ureg.Quantity\<close>), as far as the protocol
  code looks at it: \<^verbatim>\<open>q.to_base_units().magnitude\<close> and \<^verbatim>\<open>q.dimensionality\<close>.\<close>

datatype quantity = Quantity (base_magnitude: real) (dimensionality: string)

text \<open>The Python values that occur as keyword arguments and as component attributes.\<close>

datatype pyval =
    VNone
  | VBool bool
  | VInt int
  | VFloat real
  | VStr string
  | VQuantity quantity

datatype pytype = TNoneType | TBool | TInt | TFloat | TStr | TQuantity

fun type_of :: "pyval \<Rightarrow> pytype" where
  "type_of VNone = TNoneType"
| "type_of (VBool b) = TBool"
| "type_of (VInt n) = TInt"
| "type_of (VFloat x) = TFloat"
| "type_of (VStr s) = TStr"
| "type_of (VQuantity q) = TQuantity"

text \<open>\<^verbatim>\<open>isinstance(v, t)\<close>: \<^verbatim>\<open>bool\<close> is a subclass of \<^verbatim>\<open>int\<close>.\<close>

definition isinstance :: "pyval \<Rightarrow> pytype \<Rightarrow> bool" where
  "isinstance v t = (type_of v = t \<or> (type_of v = TBool \<and> t = TInt))"

text \<open>The truth value Python gives a value in a condition.\<close>

fun truthy :: "pyval \<Rightarrow> bool" where
  "truthy VNone = False"
| "truthy (VBool b) = b"
| "truthy (VInt n) = (n \<noteq> 0)"
| "truthy (VFloat x) = (x \<noteq> 0)"
| "truthy (VStr s) = (s \<noteq> [])"
| "truthy (VQuantity q) = (base_magnitude q \<noteq> 0)"

text \<open>A \<^verbatim>\<open>dict\<close> with string keys, in insertion order.\<close>

type_synonym kwargs = "(string \<times> pyval) list"

text \<open>\<^verbatim>\<open>kwargs.get(k)\<close> and \<^verbatim>\<open>kwargs[k]\<close>.\<close>

definition kwargs_get :: "kwargs \<Rightarrow> string \<Rightarrow> pyval" where
  "kwargs_get kw k = (case map_of kw k of None \<Rightarrow> VNone | Some v \<Rightarrow> v)"

text \<open>Every \<^verbatim>\<open>raise\<close> of the source (and every exception of a Python builtin the code
  can trigger) is one constructor. The source raises \<^verbatim>\<open>RuntimeError\<close> and
  \<^verbatim>\<open>ValueError\<close> with distinct messages; the constructors are named after the
  failure they report.\<close>

datatype error =
    UnknownDeviceError            \<comment> \<open>ValueError: not a component of the apparatus\<close>
  | EmptyInstructionError         \<comment> \<open>RuntimeError: No kwargs supplied\<close>
  | UnknownAttributeError         \<comment> \<open>ValueError: Invalid attribute\<close>
  | DimensionalityError           \<comment> \<open>ValueError: Bad dimensionality\<close>
  | TypeMismatchError             \<comment> \<open>ValueError: Bad type matching\<close>
  | ConflictingTimeSpecError      \<comment> \<open>RuntimeError: Must provide one of stop and duration\<close>
  | InvertedIntervalError         \<comment> \<open>ValueError: Procedure beginning is after procedure end\<close>
  | MissingTemperatureError       \<comment> \<open>RuntimeError: TempControl is activated but ...\<close>
  | DuplicateDeviceNameError      \<comment> \<open>RuntimeError: Found ActiveComponents with duplicate names\<close>
  | InvalidDeviceError            \<comment> \<open>RuntimeError: Component is not valid\<close>
  | ConflictingWholeDurationError \<comment> \<open>RuntimeError: cannot have two procedures for the entire duration\<close>
  | AmbiguousStartError           \<comment> \<open>RuntimeError: Ambiguous start time\<close>
  | UnresolvableDurationError     \<comment> \<open>RuntimeError: Unable to automatically infer duration\<close>
  | ClearExecutedError            \<comment> \<open>RuntimeError: Unable to clear the procedures ...\<close>
  | PyTypeError                   \<comment> \<open>TypeError of a Python builtin\<close>
  | PyKeyError                    \<comment> \<open>KeyError of a dict lookup\<close>
  | QuantityError                 \<comment> \<open>an exception of the quantity library\<close>

text \<open>A component object. Python compares components by identity; \<open>obj_id\<close> stands for
  the identity of the object, so that two objects with equal attributes are still
  different values. \<open>inst_dict\<close> is \<^verbatim>\<open>component.__dict__\<close>, \<open>class_attrs\<close> the names
  that \<^verbatim>\<open>hasattr\<close> finds on the class (methods, properties). \<open>valid_dry_run\<close> and
  \<open>valid_live\<close> are what \<^verbatim>\<open>component.validate(dry_run)\<close> returns for
  \<^verbatim>\<open>dry_run=True\<close> and \<^verbatim>\<open>False\<close>; \<open>base_state\<close> is what
  \<^verbatim>\<open>component.base_state()\<close> returns. The component classes are not part of the
  sources given; these fields are the interface the protocol code uses.\<close>

record component =
  obj_id :: nat
  name :: string
  is_valve :: bool
  is_temp_control :: bool
  mapping :: "(pyval \<times> pyval) list"
  inst_dict :: kwargs
  class_attrs :: "string list"
  valid_dry_run :: bool
  valid_live :: bool
  base_state :: kwargs

text \<open>One entry of \<^verbatim>\<open>Protocol.procedures\<close>: the dict
  \<^verbatim>\<open>dict(start=..., stop=..., component=..., params=...)\<close>.\<close>

record procedure =
  start :: "real option"
  stop :: "real option"
  component :: component
  params :: kwargs

text \<open>The apparatus is outside the sources; the protocol reads its \<^verbatim>\<open>components\<close> and
  its \<^verbatim>\<open>_active_components\<close>, the latter in iteration order.\<close>

record apparatus =
  components :: "component list"
  active_components :: "component list"

record protocol =
  apparatus :: apparatus
  procedures :: "procedure list"
  is_executing :: bool
  was_executed :: bool

text \<open>A compiled instruction: \<^verbatim>\<open>dict(time=..., params=...)\<close> in execution form,
  \<^verbatim>\<open>dict(start=..., stop=..., params=...)\<close> in visualization form.\<close>

datatype compiled_step =
    TimeStep (time: "real option") (step_params: kwargs)
  | SpanStep (span_start: "real option") (span_stop: "real option") (span_params: kwargs)

type_synonym compiled = "(component \<times> compiled_step list) list"

text \<open>\<^verbatim>\<open>d[k] = v\<close> on a dict kept in insertion order.\<close>

fun dict_set :: "('k \<times> 'v) list \<Rightarrow> 'k \<Rightarrow> 'v \<Rightarrow> ('k \<times> 'v) list" where
  "dict_set [] k v = [(k, v)]"
| "dict_set ((k', v') # kvs) k v =
     (if k' = k then (k, v) # kvs else (k', v') # dict_set kvs k v)"

definition kwargs_item :: "kwargs \<Rightarrow> string \<Rightarrow> error + pyval" where
  "kwargs_item kw k = (case map_of kw k of None \<Rightarrow> Inl PyKeyError | Some v \<Rightarrow> Inr v)"

subsection \<open>\<^verbatim>\<open>Protocol._add_single\<close>\<close>

text \<open>The units registry \<^verbatim>\<open>ureg\<close> is an external library. The protocol code calls
  \<^verbatim>\<open>ureg.parse_expression\<close>, adds and compares the quantities it returns, and turns a
  float into text with \<^verbatim>\<open>str\<close>; these are parameters of the model. Each may raise.\<close>

record ureg =
  parse_expression :: "pyval \<Rightarrow> error + quantity"
  quantity_add :: "quantity \<Rightarrow> quantity \<Rightarrow> error + quantity"
  quantity_gt :: "quantity \<Rightarrow> quantity \<Rightarrow> error + bool"
  float_str :: "real \<Rightarrow> string"

text \<open>A time argument as \<^verbatim>\<open>add\<close> documents it: an expression such as
  \<^verbatim>\<open>"5 seconds"\<close> or a \<^verbatim>\<open>datetime.timedelta\<close> (given by its
  \<^verbatim>\<open>total_seconds()\<close>); \<open>None\<close> when the argument is \<^verbatim>\<open>None\<close>.\<close>

datatype timearg = TimeStr string | Timedelta real

text \<open>\<^verbatim>\<open>if isinstance(t, timedelta): t = str(t.total_seconds()) + " seconds"\<close>\<close>

definition as_expression :: "ureg \<Rightarrow> timearg option \<Rightarrow> pyval" where
  "as_expression u t =
     (case t of
        None \<Rightarrow> VNone
      | Some (TimeStr s) \<Rightarrow> VStr s
      | Some (Timedelta secs) \<Rightarrow> VStr (float_str u secs @ '' seconds''))"

text \<open>Lines 98 to 105: the mapping for valves. A \<^verbatim>\<open>KeyError\<close> of the lookup is caught;
  the handler tests whether the setting is an \<^verbatim>\<open>int\<close> and does nothing in either
  case.\<close>

definition resolve_setting :: "component \<Rightarrow> kwargs \<Rightarrow> kwargs" where
  "resolve_setting c kw =
     (if is_valve c \<and> kwargs_get kw ''setting'' \<noteq> VNone then
        (case map_of (mapping c) (kwargs_get kw ''setting'') of
           Some raw \<Rightarrow> dict_set kw ''setting'' raw
         | None \<Rightarrow> (if isinstance (kwargs_get kw ''setting'') TInt then kw else kw))
      else kw)"

definition hasattr :: "component \<Rightarrow> string \<Rightarrow> bool" where
  "hasattr c k = (k \<in> set (map fst (inst_dict c)) \<or> k \<in> set (class_attrs c))"

text \<open>Lines 114 to 139: the loop over \<^verbatim>\<open>kwargs.items()\<close>; \<open>None\<close> when no check
  raises.\<close>

fun check_kwargs :: "ureg \<Rightarrow> component \<Rightarrow> kwargs \<Rightarrow> error option" where
  "check_kwargs u c [] = None"
| "check_kwargs u c ((kwarg, v) # rest) =
     (if \<not> hasattr c kwarg then Some UnknownAttributeError
      else
        (case map_of (inst_dict c) kwarg of
           None \<Rightarrow> Some PyKeyError
         | Some (VQuantity q) \<Rightarrow>
            (case parse_expression u v of
               Inl e \<Rightarrow> Some e
             | Inr parsed \<Rightarrow>
                 if dimensionality parsed \<noteq> dimensionality q then Some DimensionalityError
                 else check_kwargs u c rest)
         | Some attr \<Rightarrow>
            if \<not> isinstance attr (type_of v) then Some TypeMismatchError
            else check_kwargs u c rest))"

text \<open>Lines 141 to 161: the start and stop of the procedure as quantities.\<close>

definition resolve_times ::
  "ureg \<Rightarrow> timearg option \<Rightarrow> timearg option \<Rightarrow> timearg option
     \<Rightarrow> error + quantity \<times> quantity option" where
  "resolve_times u start_arg stop_arg duration =
     (if stop_arg \<noteq> None \<and> duration \<noteq> None then Inl ConflictingTimeSpecError
      else
        (case parse_expression u (as_expression u start_arg) of
           Inl e \<Rightarrow> Inl e
         | Inr start_q \<Rightarrow>
            (case (if duration \<noteq> None then
                     (case parse_expression u (as_expression u duration) of
                        Inl e \<Rightarrow> Inl e
                      | Inr d \<Rightarrow>
                          (case quantity_add u start_q d of
                             Inl e \<Rightarrow> Inl e
                           | Inr stop_q \<Rightarrow> Inr (Some stop_q)))
                   else if stop_arg \<noteq> None then
                     (case parse_expression u (as_expression u stop_arg) of
                        Inl e \<Rightarrow> Inl e
                      | Inr stop_q \<Rightarrow> Inr (Some stop_q))
                   else Inr None) of
               Inl e \<Rightarrow> Inl e
             | Inr None \<Rightarrow> Inr (start_q, None)
             | Inr (Some stop_q) \<Rightarrow>
                 (case quantity_gt u start_q stop_q of
                    Inl e \<Rightarrow> Inl e
                  | Inr later \<Rightarrow>
                      if later then Inl InvertedIntervalError
                      else Inr (start_q, Some stop_q)))))"

text \<open>Lines 107 to 161: the checks every request goes through, whatever the component:
  the keyword arguments are not empty, each of them fits the component, and the times can
  be resolved. The result is the keyword arguments, as they were given to it, and the two
  times.\<close>

definition validated_request ::
  "ureg \<Rightarrow> component \<Rightarrow> timearg option \<Rightarrow> timearg option \<Rightarrow> timearg option
     \<Rightarrow> kwargs \<Rightarrow> error + kwargs \<times> quantity \<times> quantity option" where
  "validated_request u c start_arg stop_arg duration kw =
     (if kw = [] then Inl EmptyInstructionError
      else
        (case check_kwargs u c kw of
           Some e \<Rightarrow> Inl e
         | None \<Rightarrow>
            (case resolve_times u start_arg stop_arg duration of
               Inl e \<Rightarrow> Inl e
             | Inr (start_q, stop_q) \<Rightarrow> Inr (kw, start_q, stop_q))))"

text \<open>Lines 92 to 161: everything \<^verbatim>\<open>_add_single\<close> does before it looks at temperature
  controllers: the component must belong to the apparatus (lines 93 to 96), then the valve
  mapping, then the checks above on the keyword arguments as the mapping leaves them.\<close>

definition checked_request ::
  "ureg \<Rightarrow> protocol \<Rightarrow> component \<Rightarrow> timearg option \<Rightarrow> timearg option \<Rightarrow> timearg option
     \<Rightarrow> kwargs \<Rightarrow> error + kwargs \<times> quantity \<times> quantity option" where
  "checked_request u self c start_arg stop_arg duration kwargs =
     (if c \<notin> set (components (apparatus self)) then Inl UnknownDeviceError
      else validated_request u c start_arg stop_arg duration (resolve_setting c kwargs))"

text \<open>Lines 163 to 173: "a little magic for temperature controllers".\<close>

definition temp_control_magic :: "component \<Rightarrow> kwargs \<Rightarrow> error + kwargs" where
  "temp_control_magic c kw =
     (if is_temp_control c then
        (if kwargs_get kw ''temp'' \<noteq> VNone \<and> kwargs_get kw ''active'' = VNone
           then Inr (dict_set kw ''active'' (VBool True))
         else if \<not> truthy (kwargs_get kw ''active'') \<and> kwargs_get kw ''temp'' = VNone
           then Inr (dict_set kw ''temp'' (VStr ''0 degC''))
         else
           (case kwargs_item kw ''active'' of
              Inl e \<Rightarrow> Inl e
            | Inr active \<Rightarrow>
                if truthy active \<and> kwargs_get kw ''temp'' = VNone
                then Inl MissingTemperatureError
                else Inr kw))
      else Inr kw)"

text \<open>Lines 175 to 187: the record appended to \<^verbatim>\<open>self.procedures\<close>.\<close>

definition new_procedure :: "component \<Rightarrow> quantity \<Rightarrow> quantity option \<Rightarrow> kwargs \<Rightarrow> procedure" where
  "new_procedure c start_q stop_q kw =
     \<lparr>start = Some (base_magnitude start_q), stop = map_option base_magnitude stop_q,
      component = c, params = kw\<rparr>"

definition add_single ::
  "ureg \<Rightarrow> protocol \<Rightarrow> component \<Rightarrow> timearg option \<Rightarrow> timearg option \<Rightarrow> timearg option
     \<Rightarrow> kwargs \<Rightarrow> (error + unit) \<times> protocol" where
  "add_single u self c start_arg stop_arg duration kwargs =
     (case checked_request u self c start_arg stop_arg duration kwargs of
        Inl e \<Rightarrow> (Inl e, self)
      | Inr (kw, start_q, stop_q) \<Rightarrow>
         (case temp_control_magic c kw of
            Inl e \<Rightarrow> (Inl e, self)
          | Inr kw' \<Rightarrow>
              (Inr (), self\<lparr>procedures := procedures self @ [new_procedure c start_q stop_q kw']\<rparr>)))"

subsection \<open>\<^verbatim>\<open>Protocol._inferred_duration\<close>\<close>

text \<open>
  \<^verbatim>\<open>
  computed_durations = sorted([x["stop"] for x in self.procedures],
                              key=lambda z: z if z is not None else 0)
  if all([x is None for x in computed_durations]): raise RuntimeError(...)
  return computed_durations[-1]
  \<close>
  Python's \<^verbatim>\<open>sorted\<close> is stable, and so is \<open>sort_key\<close>.
\<close>

definition duration_key :: "real option \<Rightarrow> real" where
  "duration_key z = (case z of None \<Rightarrow> 0 | Some t \<Rightarrow> t)"

definition inferred_duration :: "procedure list \<Rightarrow> error + real option" where
  "inferred_duration ps =
     (let computed_durations = sort_key duration_key (map stop ps)
      in if list_all (\<lambda>x. x = None) computed_durations then Inl UnresolvableDurationError
         else Inr (last computed_durations))"

subsection \<open>\<^verbatim>\<open>Protocol.compile\<close>\<close>

text \<open>The records of one component are the same dict objects as those in
  \<^verbatim>\<open>self.procedures\<close>; the model keeps them in the procedure list and refers to them
  by their index there, so that an assignment to \<^verbatim>\<open>procedure["stop"]\<close> is seen by
  every later read of \<^verbatim>\<open>self.procedures\<close>. Every entry of the list is a dict of its
  own: \<^verbatim>\<open>_add_single\<close> builds a new one for each record.\<close>

definition component_indices :: "procedure list \<Rightarrow> component \<Rightarrow> nat list" where
  "component_indices ps c = filter (\<lambda>i. component (ps ! i) = c) [0..<length ps]"

text \<open>\<^verbatim>\<open>sorted(..., key=lambda x: x["start"])\<close>. With two or more records every key
  takes part in a comparison, and comparing \<^verbatim>\<open>None\<close> raises \<^verbatim>\<open>TypeError\<close>;
  a list of fewer than two records is returned without any comparison.\<close>

definition sorted_by_start :: "procedure list \<Rightarrow> nat list \<Rightarrow> error + nat list" where
  "sorted_by_start ps idxs =
     (if length idxs < 2 then Inr idxs
      else if list_ex (\<lambda>i. start (ps ! i) = None) idxs then Inl PyTypeError
      else Inr (sort_key (\<lambda>i. the (start (ps ! i))) idxs))"

text \<open>The loop that infers stop times (lines 297 to 320), over the sorted indices from
  position \<open>i\<close> on. \<^verbatim>\<open>component_procedures[i + 1]\<close> raises \<^verbatim>\<open>IndexError\<close> exactly
  for the last record. The result is the error raised, if any, and the procedure list as
  the loop leaves it.\<close>

fun infer_stops :: "nat list \<Rightarrow> procedure list \<Rightarrow> error option \<times> procedure list" where
  "infer_stops [] ps = (None, ps)"
| "infer_stops [i] ps =
     (if stop (ps ! i) = None then
        (case inferred_duration ps of
           Inl e \<Rightarrow> (Some e, ps)
         | Inr d \<Rightarrow> (None, ps[i := (ps ! i)\<lparr>stop := d\<rparr>]))
      else (None, ps))"
| "infer_stops (i # j # rest) ps =
     (if start (ps ! j) = Some 0 then (Some AmbiguousStartError, ps)
      else if start (ps ! j) \<noteq> None \<and> stop (ps ! i) = None
        then infer_stops (j # rest) (ps[i := (ps ! i)\<lparr>stop := start (ps ! j)\<rparr>])
      else infer_stops (j # rest) ps)"

text \<open>\<^verbatim>\<open>math.isclose(a, b)\<close> with its default tolerances (\<^verbatim>\<open>rel_tol=1e-09\<close>,
  \<^verbatim>\<open>abs_tol=0.0\<close>); an argument that is \<^verbatim>\<open>None\<close> raises \<^verbatim>\<open>TypeError\<close>.\<close>

definition rel_tol :: real where
  "rel_tol = 1 / 10 ^ 9"

fun isclose :: "real option \<Rightarrow> real option \<Rightarrow> error + bool" where
  "isclose (Some a) (Some b) =
     Inr (a = b \<or> \<bar>b - a\<bar> \<le> \<bar>rel_tol * b\<bar> \<or> \<bar>b - a\<bar> \<le> \<bar>rel_tol * a\<bar> \<or> \<bar>b - a\<bar> \<le> 0)"
| "isclose _ _ = Inl PyTypeError"

text \<open>Whether the rest instruction after a record is skipped: the \<^verbatim>\<open>try\<close> block of
  lines 340 to 346. For the last record the lookup raises \<^verbatim>\<open>IndexError\<close>, which is
  caught, and the rest instruction is emitted.\<close>

fun gap_closed :: "procedure \<Rightarrow> procedure list \<Rightarrow> error + bool" where
  "gap_closed p [] = Inr False"
| "gap_closed p (q # rest) = isclose (start q) (stop p)"

text \<open>The emission loop (lines 323 to 351) over the sorted records of one component, as
  they are after the inference loop; \<open>base\<close> is \<^verbatim>\<open>component.base_state()\<close>.\<close>

fun emit_steps :: "bool \<Rightarrow> kwargs \<Rightarrow> procedure list \<Rightarrow> error + compiled_step list" where
  "emit_steps viz base [] = Inr []"
| "emit_steps viz base (p # rest) =
     (if viz then
        (case emit_steps viz base rest of
           Inl e \<Rightarrow> Inl e
         | Inr steps \<Rightarrow> Inr (SpanStep (start p) (stop p) (params p) # steps))
      else
        (case gap_closed p rest of
           Inl e \<Rightarrow> Inl e
         | Inr skip_rest \<Rightarrow>
            (case emit_steps viz base rest of
               Inl e \<Rightarrow> Inl e
             | Inr steps \<Rightarrow>
                 Inr (TimeStep (start p) (params p)
                      # (if skip_rest then [] else [TimeStep (stop p) base]) @ steps))))"

definition validate :: "component \<Rightarrow> bool \<Rightarrow> bool" where
  "validate c dry_run = (if dry_run then valid_dry_run c else valid_live c)"

definition whole_duration :: "procedure \<Rightarrow> bool" where
  "whole_duration x = (start x = None \<and> stop x = None)"

text \<open>The loop over the active components (lines 259 to 353); \<open>output\<close> is the dict
  built so far.\<close>

fun compile_loop ::
  "bool \<Rightarrow> bool \<Rightarrow> component list \<Rightarrow> procedure list \<Rightarrow> compiled
     \<Rightarrow> (error + compiled) \<times> procedure list" where
  "compile_loop dry_run viz [] ps output = (Inr output, ps)"
| "compile_loop dry_run viz (c # cs) ps output =
     (case sorted_by_start ps (component_indices ps c) of
        Inl e \<Rightarrow> (Inl e, ps)
      | Inr component_procedures \<Rightarrow>
          if component_procedures = [] then compile_loop dry_run viz cs ps output
          else if \<not> validate c dry_run then (Inl InvalidDeviceError, ps)
          else if 1 < length (filter whole_duration (map (\<lambda>i. ps ! i) component_procedures))
            then (Inl ConflictingWholeDurationError, ps)
          else
            (case infer_stops component_procedures ps of
               (Some e, ps') \<Rightarrow> (Inl e, ps')
             | (None, ps') \<Rightarrow>
                 (case emit_steps viz (base_state c) (map (\<lambda>i. ps' ! i) component_procedures) of
                    Inl e \<Rightarrow> (Inl e, ps')
                  | Inr steps \<Rightarrow> compile_loop dry_run viz cs ps' (dict_set output c steps))))"

definition compile :: "protocol \<Rightarrow> bool \<Rightarrow> bool \<Rightarrow> (error + compiled) \<times> protocol" where
  "compile self dry_run viz =
     (let acs = active_components (apparatus self)
      in if length (remdups (map name acs)) \<noteq> length acs
         then (Inl DuplicateDeviceNameError, self)
         else (case compile_loop dry_run viz acs (procedures self) [] of
                 (r, ps') \<Rightarrow> (r, self\<lparr>procedures := ps'\<rparr>)))"

subsection \<open>\<^verbatim>\<open>Protocol.to_list\<close> and \<^verbatim>\<open>Protocol.clear_procedures\<close>\<close>

text \<open>A record of the export: the copy of a procedure whose \<^verbatim>\<open>component\<close> entry has
  been replaced by the component's name.\<close>

record exported =
  e_start :: "real option"
  e_stop :: "real option"
  e_component :: string
  e_params :: kwargs

text \<open>The loop of \<^verbatim>\<open>to_list\<close> runs over a deep copy of the procedures, so the protocol
  itself is left as it is.\<close>

fun to_list_loop :: "procedure list \<Rightarrow> exported list \<Rightarrow> exported list" where
  "to_list_loop [] output = output"
| "to_list_loop (p # ps) output =
     to_list_loop ps
       (output @ [\<lparr>e_start = start p, e_stop = stop p, e_component = name (component p),
                   e_params = params p\<rparr>])"

definition to_list :: "protocol \<Rightarrow> exported list" where
  "to_list self = to_list_loop (procedures self) []"

definition clear_procedures :: "protocol \<Rightarrow> (error + unit) \<times> protocol" where
  "clear_procedures self =
     (if \<not> was_executed self \<or> is_executing self
      then (Inr (), self\<lparr>procedures := []\<rparr>)
      else (Inl ClearExecutedError, self))"

subsection \<open>A relation between procedure lists\<close>

text \<open>\<open>stop_filled p p'\<close>: the record \<open>p'\<close> is the record \<open>p\<close>, except that a stop that was
  \<^verbatim>\<open>None\<close> may have been assigned.\<close>

definition stop_filled :: "procedure \<Rightarrow> procedure \<Rightarrow> bool" where
  "stop_filled p p' =
     (start p' = start p \<and> component p' = component p \<and> params p' = params p
      \<and> (stop p = None \<or> stop p' = stop p))"



section \<open>Example components and protocols\<close>

text \<open>Concrete inputs at which the theorems below are evaluated.\<close>

definition simple_device :: "nat \<Rightarrow> string \<Rightarrow> component" where
  "simple_device n nm =
     \<lparr>obj_id = n, name = nm, is_valve = False, is_temp_control = False, mapping = [],
      inst_dict = [(''x'', VInt 0)], class_attrs = [], valid_dry_run = True,
      valid_live = True, base_state = [(''x'', VInt 0)]\<rparr>"

definition dev_A :: component where "dev_A = simple_device 0 ''A''"
definition dev_B :: component where "dev_B = simple_device 1 ''B''"

definition request :: "component \<Rightarrow> real option \<Rightarrow> real option \<Rightarrow> int \<Rightarrow> procedure" where
  "request c s e v = \<lparr>start = s, stop = e, component = c, params = [(''x'', VInt v)]\<rparr>"

definition protocol_of :: "component list \<Rightarrow> procedure list \<Rightarrow> protocol" where
  "protocol_of cs ps =
     \<lparr>apparatus = \<lparr>components = cs, active_components = cs\<rparr>, procedures = ps,
      is_executing = False, was_executed = False\<rparr>"

definition two_step_protocol :: protocol where
  "two_step_protocol =
     protocol_of [dev_A] [request dev_A (Some 0) None 1, request dev_A (Some 10) (Some 20) 2]"

definition toy_ureg :: ureg where
  "toy_ureg =
     \<lparr>parse_expression =
        (\<lambda>v. if v = VStr ''0 seconds'' then Inr (Quantity 0 ''[time]'')
             else if v = VStr ''10 seconds'' then Inr (Quantity 10 ''[time]'')
             else if v = VStr ''50 degC'' then Inr (Quantity (32315 / 100) ''[temperature]'')
             else if v = VNone then Inr (Quantity 1 '''')
             else Inl QuantityError),
      quantity_add =
        (\<lambda>a b. if dimensionality a = dimensionality b
               then Inr (Quantity (base_magnitude a + base_magnitude b) (dimensionality a))
               else Inl QuantityError),
      quantity_gt =
        (\<lambda>a b. if dimensionality a = dimensionality b
               then Inr (base_magnitude a > base_magnitude b)
               else Inl QuantityError),
      float_str = (\<lambda>x. ''0.0'')\<rparr>"

definition heater :: component where
  "heater =
     \<lparr>obj_id = 2, name = ''heater'', is_valve = False, is_temp_control = True, mapping = [],
      inst_dict = [(''temp'', VQuantity (Quantity (27315 / 100) ''[temperature]'')),
                   (''active'', VBool False)],
      class_attrs = [''validate'', ''base_state''], valid_dry_run = True, valid_live = True,
      base_state = [(''temp'', VStr ''0 degC''), (''active'', VBool False)]\<rparr>"



definition heater_protocol :: protocol where
  "heater_protocol = protocol_of [heater] []"

definition open_ended_protocol :: protocol where
  "open_ended_protocol = protocol_of [dev_B, dev_A] [request dev_A (Some 0) None 1]"

definition two_open_protocol :: protocol where
  "two_open_protocol =
     protocol_of [dev_A] [request dev_A (Some 0) None 1, request dev_A (Some 5) None 2]"



definition rerun_protocol :: protocol where
  "rerun_protocol =
     protocol_of [dev_A, dev_B]
       [request dev_B (Some 0) (Some 0) 1, request dev_A (Some 0) None 2,
        request dev_B (Some 1) None 3, request dev_B (Some 5) None 4]"



definition whole_duration_twice :: protocol where
  "whole_duration_twice =
     protocol_of [dev_A] [request dev_A (Some 0) None 1, request dev_A (Some 0) None 2]"

definition two_devices_open_protocol :: protocol where
  "two_devices_open_protocol =
     protocol_of [dev_A, dev_B] [request dev_A (Some 0) None 1, request dev_B (Some 5) None 2]"

section \<open>Properties\<close>

subsection \<open>Auxiliary facts about dicts and the builder\<close>

lemma to_list_loop_map:
  "to_list_loop ps acc =
     acc @ map (\<lambda>p. \<lparr>e_start = start p, e_stop = stop p, e_component = name (component p),
                          e_params = params p\<rparr>) ps"
  by (induction ps arbitrary: acc) simp_all

lemma map_of_dict_set: "map_of (dict_set kw k v) = (map_of kw)(k \<mapsto> v)"
  by (induction kw k v rule: dict_set.induct) (auto simp: fun_eq_iff)

lemma kwargs_get_dict_set:
  "kwargs_get (dict_set kw k v) k' = (if k' = k then v else kwargs_get kw k')"
  by (simp add: kwargs_get_def map_of_dict_set)

lemma kwargs_get_resolve_setting:
  "k \<noteq> ''setting'' \<Longrightarrow> kwargs_get (resolve_setting c kw) k = kwargs_get kw k"
  by (auto simp: resolve_setting_def kwargs_get_dict_set split: option.splits)

lemma map_of_resolve_setting:
  "k \<noteq> ''setting'' \<Longrightarrow> map_of (resolve_setting c kw) k = map_of kw k"
  by (auto simp: resolve_setting_def map_of_dict_set split: option.splits)


lemma validated_request_kwargs:
  "validated_request u c start_arg stop_arg duration kw = Inr (kw1, start_q, stop_q) \<Longrightarrow> kw1 = kw"
  by (auto simp: validated_request_def split: if_splits option.splits sum.splits)

lemma checked_request_kwargs:
  "checked_request u self c start_arg stop_arg duration kwargs = Inr (kw, start_q, stop_q)
     \<Longrightarrow> kw = resolve_setting c kwargs"
  by (auto simp: checked_request_def validated_request_def
      split: if_splits option.splits sum.splits)


lemma add_single_start:
  assumes "add_single u self c start_arg stop_arg duration kwargs = (Inr (), self')"
  shows "\<exists>p. procedures self' = procedures self @ [p] \<and> start p \<noteq> None"
  using assms
  by (auto simp: add_single_def new_procedure_def split: sum.splits prod.splits)

subsection \<open>The procedure builder\<close>

text \<open>C7: for a temperature controller whose request passes the checks that precede the
  temperature rules, \<^verbatim>\<open>_add_single\<close> appends one record \<open>p\<close> for the component, with the
  resolved times, whose parameters are these. If \<^verbatim>\<open>temp\<close> is given and \<^verbatim>\<open>active\<close> is
  not, \<^verbatim>\<open>active\<close> is \<^verbatim>\<open>True\<close> in the record and every other parameter is as it was. If
  \<^verbatim>\<open>active\<close> is false or absent and \<^verbatim>\<open>temp\<close> is not given, \<^verbatim>\<open>temp\<close> is
  \<^verbatim>\<open>"0 degC"\<close> in the record and every other parameter is as it was. If \<^verbatim>\<open>active\<close> is
  true and \<^verbatim>\<open>temp\<close> is not given, the call raises the missing-temperature error and
  appends nothing. Here \<open>kw\<close> is the keyword arguments after the valve mapping, which
  agrees with the arguments given on every key but \<^verbatim>\<open>setting\<close>.\<close>

theorem temp_control_normalization:
  assumes "is_temp_control c"
    and "checked_request u self c start_arg stop_arg duration kwargs = Inr (kw, start_q, stop_q)"
  shows "(kwargs_get kwargs ''temp'' \<noteq> VNone \<and> kwargs_get kwargs ''active'' = VNone \<longrightarrow>
            (\<exists>p. add_single u self c start_arg stop_arg duration kwargs =
                   (Inr (), self\<lparr>procedures := procedures self @ [p]\<rparr>)
               \<and> component p = c \<and> start p = Some (base_magnitude start_q)
               \<and> stop p = map_option base_magnitude stop_q
               \<and> map_of (params p) ''active'' = Some (VBool True)
               \<and> (\<forall>k. k \<noteq> ''active'' \<longrightarrow> map_of (params p) k = map_of kw k)))
       \<and> (\<not> truthy (kwargs_get kwargs ''active'') \<and> kwargs_get kwargs ''temp'' = VNone \<longrightarrow>
            (\<exists>p. add_single u self c start_arg stop_arg duration kwargs =
                   (Inr (), self\<lparr>procedures := procedures self @ [p]\<rparr>)
               \<and> component p = c \<and> start p = Some (base_magnitude start_q)
               \<and> stop p = map_option base_magnitude stop_q
               \<and> map_of (params p) ''temp'' = Some (VStr ''0 degC'')
               \<and> (\<forall>k. k \<noteq> ''temp'' \<longrightarrow> map_of (params p) k = map_of kw k)))
       \<and> (truthy (kwargs_get kwargs ''active'') \<and> kwargs_get kwargs ''temp'' = VNone \<longrightarrow>
            add_single u self c start_arg stop_arg duration kwargs =
              (Inl MissingTemperatureError, self))
       \<and> (\<forall>k. k \<noteq> ''setting'' \<longrightarrow> map_of kw k = map_of kwargs k)"
proof -
  have kw: "kw = resolve_setting c kwargs"
    using assms(2) by (rule checked_request_kwargs)
  have t: "kwargs_get kw ''temp'' = kwargs_get kwargs ''temp''"
    and a: "kwargs_get kw ''active'' = kwargs_get kwargs ''active''"
    by (simp_all add: kw kwargs_get_resolve_setting)
  have item: "truthy (kwargs_get kw ''active'') \<Longrightarrow>
      kwargs_item kw ''active'' = Inr (kwargs_get kw ''active'')"
    by (auto simp: kwargs_item_def kwargs_get_def split: option.splits)
  have first: "temp_control_magic c kw = Inr (dict_set kw ''active'' (VBool True))"
    if "kwargs_get kwargs ''temp'' \<noteq> VNone \<and> kwargs_get kwargs ''active'' = VNone"
    using that assms(1) by (simp add: temp_control_magic_def t a)
  have second: "temp_control_magic c kw = Inr (dict_set kw ''temp'' (VStr ''0 degC''))"
    if "\<not> truthy (kwargs_get kwargs ''active'') \<and> kwargs_get kwargs ''temp'' = VNone"
    using that assms(1) by (auto simp: temp_control_magic_def t a)
  have third: "temp_control_magic c kw = Inl MissingTemperatureError"
    if "truthy (kwargs_get kwargs ''active'') \<and> kwargs_get kwargs ''temp'' = VNone"
    using that assms(1) item by (auto simp: temp_control_magic_def t a)
  have run: "add_single u self c start_arg stop_arg duration kwargs =
      (case temp_control_magic c kw of
         Inl e \<Rightarrow> (Inl e, self)
       | Inr kw' \<Rightarrow>
           (Inr (), self\<lparr>procedures := procedures self @
              [\<lparr>start = Some (base_magnitude start_q), stop = map_option base_magnitude stop_q,
                component = c, params = kw'\<rparr>]\<rparr>))"
    using assms(2) by (simp add: add_single_def new_procedure_def split: sum.splits)
  show ?thesis
  proof (intro conjI impI allI)
    assume h: "kwargs_get kwargs ''temp'' \<noteq> VNone \<and> kwargs_get kwargs ''active'' = VNone"
    show "\<exists>p. add_single u self c start_arg stop_arg duration kwargs =
                   (Inr (), self\<lparr>procedures := procedures self @ [p]\<rparr>)
               \<and> component p = c \<and> start p = Some (base_magnitude start_q)
               \<and> stop p = map_option base_magnitude stop_q
               \<and> map_of (params p) ''active'' = Some (VBool True)
               \<and> (\<forall>k. k \<noteq> ''active'' \<longrightarrow> map_of (params p) k = map_of kw k)"
      by (rule exI[of _ "\<lparr>start = Some (base_magnitude start_q),
            stop = map_option base_magnitude stop_q, component = c,
            params = dict_set kw ''active'' (VBool True)\<rparr>"])
        (simp add: run first[OF h] map_of_dict_set)
  next
    assume h: "\<not> truthy (kwargs_get kwargs ''active'') \<and> kwargs_get kwargs ''temp'' = VNone"
    show "\<exists>p. add_single u self c start_arg stop_arg duration kwargs =
                   (Inr (), self\<lparr>procedures := procedures self @ [p]\<rparr>)
               \<and> component p = c \<and> start p = Some (base_magnitude start_q)
               \<and> stop p = map_option base_magnitude stop_q
               \<and> map_of (params p) ''temp'' = Some (VStr ''0 degC'')
               \<and> (\<forall>k. k \<noteq> ''temp'' \<longrightarrow> map_of (params p) k = map_of kw k)"
      by (rule exI[of _ "\<lparr>start = Some (base_magnitude start_q),
            stop = map_option base_magnitude stop_q, component = c,
            params = dict_set kw ''temp'' (VStr ''0 degC'')\<rparr>"])
        (simp add: run second[OF h] map_of_dict_set)
  next
    assume h: "truthy (kwargs_get kwargs ''active'') \<and> kwargs_get kwargs ''temp'' = VNone"
    show "add_single u self c start_arg stop_arg duration kwargs =
        (Inl MissingTemperatureError, self)"
      by (simp add: run third[OF h])
  next
    fix k :: string
    assume "k \<noteq> ''setting''"
    then show "map_of kw k = map_of kwargs k"
      by (simp add: kw map_of_resolve_setting)
  qed
qed

text \<open>Witness for C7: a heater asked for \<^verbatim>\<open>temp="50 degC"\<close> alone, for
  \<^verbatim>\<open>active=False\<close> alone and for \<^verbatim>\<open>active=True\<close> alone, with the records that result
  written out.\<close>

theorem temp_control_normalization_witness:
  "is_temp_control heater
   \<and> checked_request toy_ureg heater_protocol heater (Some (TimeStr ''0 seconds'')) None None
        [(''temp'', VStr ''50 degC'')] = Inr ([(''temp'', VStr ''50 degC'')], Quantity 0 ''[time]'', None)
   \<and> add_single toy_ureg heater_protocol heater (Some (TimeStr ''0 seconds'')) None None
        [(''temp'', VStr ''50 degC'')]
      = (Inr (), heater_protocol\<lparr>procedures :=
           [\<lparr>start = Some 0, stop = None, component = heater,
             params = [(''temp'', VStr ''50 degC''), (''active'', VBool True)]\<rparr>]\<rparr>)
   \<and> (\<exists>p. add_single toy_ureg heater_protocol heater (Some (TimeStr ''0 seconds'')) None None
              [(''temp'', VStr ''50 degC'')]
            = (Inr (), heater_protocol\<lparr>procedures := procedures heater_protocol @ [p]\<rparr>)
          \<and> map_of (params p) ''active'' = Some (VBool True)
          \<and> map_of (params p) ''temp'' = Some (VStr ''50 degC''))
   \<and> checked_request toy_ureg heater_protocol heater (Some (TimeStr ''0 seconds'')) None None
        [(''active'', VBool False)] = Inr ([(''active'', VBool False)], Quantity 0 ''[time]'', None)
   \<and> add_single toy_ureg heater_protocol heater (Some (TimeStr ''0 seconds'')) None None
        [(''active'', VBool False)]
      = (Inr (), heater_protocol\<lparr>procedures :=
           [\<lparr>start = Some 0, stop = None, component = heater,
             params = [(''active'', VBool False), (''temp'', VStr ''0 degC'')]\<rparr>]\<rparr>)
   \<and> (\<exists>p. add_single toy_ureg heater_protocol heater (Some (TimeStr ''0 seconds'')) None None
              [(''active'', VBool False)]
            = (Inr (), heater_protocol\<lparr>procedures := procedures heater_protocol @ [p]\<rparr>)
          \<and> map_of (params p) ''temp'' = Some (VStr ''0 degC'')
          \<and> map_of (params p) ''active'' = Some (VBool False))
   \<and> checked_request toy_ureg heater_protocol heater (Some (TimeStr ''0 seconds'')) None None
        [(''active'', VBool True)] = Inr ([(''active'', VBool True)], Quantity 0 ''[time]'', None)
   \<and> add_single toy_ureg heater_protocol heater (Some (TimeStr ''0 seconds'')) None None
        [(''active'', VBool True)] = (Inl MissingTemperatureError, heater_protocol)"
proof -
  have h: "is_temp_control heater" by code_simp
  have c1: "checked_request toy_ureg heater_protocol heater (Some (TimeStr ''0 seconds'')) None None
        [(''temp'', VStr ''50 degC'')] = Inr ([(''temp'', VStr ''50 degC'')], Quantity 0 ''[time]'', None)"
    by code_simp
  have c2: "checked_request toy_ureg heater_protocol heater (Some (TimeStr ''0 seconds'')) None None
        [(''active'', VBool False)] = Inr ([(''active'', VBool False)], Quantity 0 ''[time]'', None)"
    by code_simp
  have c3: "checked_request toy_ureg heater_protocol heater (Some (TimeStr ''0 seconds'')) None None
        [(''active'', VBool True)] = Inr ([(''active'', VBool True)], Quantity 0 ''[time]'', None)"
    by code_simp
  have e1: "add_single toy_ureg heater_protocol heater (Some (TimeStr ''0 seconds'')) None None
        [(''temp'', VStr ''50 degC'')]
      = (Inr (), heater_protocol\<lparr>procedures :=
           [\<lparr>start = Some 0, stop = None, component = heater,
             params = [(''temp'', VStr ''50 degC''), (''active'', VBool True)]\<rparr>]\<rparr>)"
    by code_simp
  have e2: "add_single toy_ureg heater_protocol heater (Some (TimeStr ''0 seconds'')) None None
        [(''active'', VBool False)]
      = (Inr (), heater_protocol\<lparr>procedures :=
           [\<lparr>start = Some 0, stop = None, component = heater,
             params = [(''active'', VBool False), (''temp'', VStr ''0 degC'')]\<rparr>]\<rparr>)"
    by code_simp
  have g1: "kwargs_get [(''temp'', VStr ''50 degC'')] ''temp'' \<noteq> VNone
      \<and> kwargs_get [(''temp'', VStr ''50 degC'')] ''active'' = VNone"
    and g2: "\<not> truthy (kwargs_get [(''active'', VBool False)] ''active'')
      \<and> kwargs_get [(''active'', VBool False)] ''temp'' = VNone"
    and g3: "truthy (kwargs_get [(''active'', VBool True)] ''active'')
      \<and> kwargs_get [(''active'', VBool True)] ''temp'' = VNone"
    by (simp_all add: kwargs_get_def)
  note n1 = temp_control_normalization[OF h c1, THEN conjunct1, THEN mp, OF g1]
  note n2 = temp_control_normalization[OF h c2, THEN conjunct2, THEN conjunct1, THEN mp, OF g2]
  note n3 = temp_control_normalization[OF h c3, THEN conjunct2, THEN conjunct2, THEN conjunct1,
      THEN mp, OF g3]
  from n1 obtain p1 where p1:
    "add_single toy_ureg heater_protocol heater (Some (TimeStr ''0 seconds'')) None None
        [(''temp'', VStr ''50 degC'')]
      = (Inr (), heater_protocol\<lparr>procedures := procedures heater_protocol @ [p1]\<rparr>)"
    "map_of (params p1) ''active'' = Some (VBool True)"
    "\<forall>k. k \<noteq> ''active'' \<longrightarrow> map_of (params p1) k = map_of [(''temp'', VStr ''50 degC'')] k"
    by (elim exE conjE)
  from p1(3) have "map_of (params p1) ''temp'' = Some (VStr ''50 degC'')" by simp
  with p1(1,2) have x1: "\<exists>p. add_single toy_ureg heater_protocol heater (Some (TimeStr ''0 seconds'')) None None
              [(''temp'', VStr ''50 degC'')]
            = (Inr (), heater_protocol\<lparr>procedures := procedures heater_protocol @ [p]\<rparr>)
          \<and> map_of (params p) ''active'' = Some (VBool True)
          \<and> map_of (params p) ''temp'' = Some (VStr ''50 degC'')"
    by (intro exI[of _ p1] conjI)
  from n2 obtain p2 where p2:
    "add_single toy_ureg heater_protocol heater (Some (TimeStr ''0 seconds'')) None None
        [(''active'', VBool False)]
      = (Inr (), heater_protocol\<lparr>procedures := procedures heater_protocol @ [p2]\<rparr>)"
    "map_of (params p2) ''temp'' = Some (VStr ''0 degC'')"
    "\<forall>k. k \<noteq> ''temp'' \<longrightarrow> map_of (params p2) k = map_of [(''active'', VBool False)] k"
    by (elim exE conjE)
  from p2(3) have "map_of (params p2) ''active'' = Some (VBool False)" by simp
  with p2(1,2) have x2: "\<exists>p. add_single toy_ureg heater_protocol heater (Some (TimeStr ''0 seconds'')) None None
              [(''active'', VBool False)]
            = (Inr (), heater_protocol\<lparr>procedures := procedures heater_protocol @ [p]\<rparr>)
          \<and> map_of (params p) ''temp'' = Some (VStr ''0 degC'')
          \<and> map_of (params p) ''active'' = Some (VBool False)"
    by (intro exI[of _ p2] conjI)
  show ?thesis
    using h c1 e1 x1 c2 e2 x2 c3 n3 by (intro conjI) assumption+
qed




subsection \<open>Export and reset\<close>

text \<open>C9, as the code has it: \<^verbatim>\<open>to_list\<close> returns the records in the order of the
  procedure list (the order in which they were added), each with its component replaced
  by the component's name and its start, stop and parameters unchanged. It does not
  sort.\<close>

theorem to_list_insertion_order:
  "to_list self =
     map (\<lambda>p. \<lparr>e_start = start p, e_stop = stop p, e_component = name (component p),
                 e_params = params p\<rparr>) (procedures self)"
  by (simp add: to_list_def to_list_loop_map)

text \<open>Counterexample to C9 as stated: a record starting at 10 added before a record
  starting at 0 is exported first.\<close>

theorem to_list_not_sorted:
  "map e_start (to_list (protocol_of [dev_A]
        [request dev_A (Some 10) (Some 20) 2, request dev_A (Some 0) (Some 10) 1]))
     = [Some 10, Some 0] \<and> \<not> sorted [10, 0 :: real]"
  by code_simp

text \<open>C10: \<^verbatim>\<open>clear_procedures\<close> empties the procedure list whenever the protocol has not
  been executed or is executing, and raises, leaving the protocol as it was, exactly when
  the protocol was executed and is not executing.\<close>

theorem clear_procedures_spec:
  "(\<not> was_executed self \<or> is_executing self \<longrightarrow>
      clear_procedures self = (Inr (), self\<lparr>procedures := []\<rparr>))
   \<and> (was_executed self \<and> \<not> is_executing self \<longrightarrow>
      clear_procedures self = (Inl ClearExecutedError, self))
   \<and> ((\<exists>e. fst (clear_procedures self) = Inl e) \<longleftrightarrow> (was_executed self \<and> \<not> is_executing self))"
  by (auto simp: clear_procedures_def)

text \<open>Witness for C10: a protocol that was never executed, and the same protocol after an
  execution that has ended.\<close>

theorem clear_procedures_spec_witness:
  "clear_procedures two_step_protocol = (Inr (), two_step_protocol\<lparr>procedures := []\<rparr>)
   \<and> clear_procedures (two_step_protocol\<lparr>was_executed := True\<rparr>)
       = (Inl ClearExecutedError, two_step_protocol\<lparr>was_executed := True\<rparr>)
   \<and> (\<exists>e. fst (clear_procedures (two_step_protocol\<lparr>was_executed := True\<rparr>)) = Inl e)"
  using clear_procedures_spec[of two_step_protocol]
    clear_procedures_spec[of "two_step_protocol\<lparr>was_executed := True\<rparr>"]
  by (simp add: two_step_protocol_def protocol_of_def)

subsection \<open>The compiler on concrete protocols\<close>

text \<open>C3, as the code has it: for device \<open>A\<close> with the records
  \<open>{start=0, stop=None, x=1}\<close> and \<open>{start=10, stop=20, x=2}\<close>, \<^verbatim>\<open>compile\<close> stores 10
  as the stop of the first record and returns \<open>[(0, x=1), (10, x=2), (20, rest)]\<close>: no
  rest instruction is emitted at 10, because the successor starts exactly there.\<close>

theorem compile_two_step:
  "compile two_step_protocol True False =
     (Inr [(dev_A, [TimeStep (Some 0) [(''x'', VInt 1)], TimeStep (Some 10) [(''x'', VInt 2)],
                    TimeStep (Some 20) (base_state dev_A)])],
      two_step_protocol\<lparr>procedures :=
        [request dev_A (Some 0) (Some 10) 1, request dev_A (Some 10) (Some 20) 2]\<rparr>)"
  by code_simp

text \<open>Counterexample to C3 as stated: the result is not the sequence with a rest
  instruction at 10.\<close>

theorem compile_two_step_no_rest_at_10:
  "fst (compile two_step_protocol True False) \<noteq>
     Inr [(dev_A, [TimeStep (Some 0) [(''x'', VInt 1)], TimeStep (Some 10) (base_state dev_A),
                   TimeStep (Some 10) [(''x'', VInt 2)], TimeStep (Some 20) (base_state dev_A)])]"
  by code_simp

subsection \<open>What \<^verbatim>\<open>compile\<close> leaves unchanged\<close>

lemma stop_filled_refl: "stop_filled p p"
  by (simp add: stop_filled_def)

lemma stop_filled_trans: "stop_filled p q \<Longrightarrow> stop_filled q r \<Longrightarrow> stop_filled p r"
  by (auto simp: stop_filled_def)

lemma list_all2_stop_filled_refl: "list_all2 stop_filled ps ps"
  by (simp add: list_all2_refl stop_filled_refl)

lemma list_all2_stop_filled_trans:
  "list_all2 stop_filled ps qs \<Longrightarrow> list_all2 stop_filled qs rs \<Longrightarrow> list_all2 stop_filled ps rs"
  using list_all2_trans[of stop_filled stop_filled stop_filled ps qs rs] stop_filled_trans
  by blast

lemma list_all2_stop_filled_update:
  "stop (ps ! i) = None \<Longrightarrow> list_all2 stop_filled ps (ps[i := (ps ! i)\<lparr>stop := d\<rparr>])"
proof -
  have "stop_filled (ps ! k) (ps[i := (ps ! i)\<lparr>stop := d\<rparr>] ! k)"
    if "stop (ps ! i) = None" "k < length ps" for k
    using that by (cases "k = i") (simp_all add: stop_filled_def)
  then show "stop (ps ! i) = None \<Longrightarrow> ?thesis"
    by (simp add: list_all2_conv_all_nth)
qed

lemma infer_stops_frame:
  "infer_stops cps ps = (eo, ps') \<Longrightarrow> list_all2 stop_filled ps ps'"
proof (induction cps ps arbitrary: eo ps' rule: infer_stops.induct)
  case (1 ps)
  then show ?case by (simp add: list_all2_stop_filled_refl)
next
  case (2 i ps)
  then show ?case
    by (auto simp: list_all2_stop_filled_refl list_all2_stop_filled_update
        split: if_splits sum.splits)
next
  case (3 i j rest ps)
  show ?case
  proof (cases "start (ps ! j) = Some 0")
    case True
    with 3(3) show ?thesis by (simp add: list_all2_stop_filled_refl)
  next
    case zero: False
    show ?thesis
    proof (cases "start (ps ! j) \<noteq> None \<and> stop (ps ! i) = None")
      case True
      with zero 3(3) have
        "infer_stops (j # rest) (ps[i := (ps ! i)\<lparr>stop := start (ps ! j)\<rparr>]) = (eo, ps')"
        by simp
      from 3(1)[OF zero True this] True show ?thesis
        by (blast intro: list_all2_stop_filled_trans list_all2_stop_filled_update)
    next
      case False
      with zero 3(3) have "infer_stops (j # rest) ps = (eo, ps')" by auto
      from 3(2)[OF zero False this] show ?thesis .
    qed
  qed
qed

lemma compile_loop_frame:
  "compile_loop dry_run viz cs ps out = (r, ps') \<Longrightarrow> list_all2 stop_filled ps ps'"
proof (induction cs arbitrary: ps out)
  case Nil
  then show ?case by (simp add: list_all2_stop_filled_refl)
next
  case (Cons c cs)
  show ?case
  proof (cases "sorted_by_start ps (component_indices ps c)")
    case (Inl e)
    with Cons.prems show ?thesis by (simp add: list_all2_stop_filled_refl)
  next
    case (Inr cps)
    show ?thesis
    proof (cases "cps = []")
      case True
      with Inr Cons.prems have "compile_loop dry_run viz cs ps out = (r, ps')" by simp
      then show ?thesis by (rule Cons.IH)
    next
      case ne: False
      obtain eo ps1 where inf: "infer_stops cps ps = (eo, ps1)"
        by (cases "infer_stops cps ps")
      have f1: "list_all2 stop_filled ps ps1"
        using inf by (rule infer_stops_frame)
      show ?thesis
      proof (cases "\<not> validate c dry_run \<or>
          1 < length (filter whole_duration (map (\<lambda>i. ps ! i) cps))")
        case True
        with Inr ne Cons.prems have "ps' = ps" by (auto split: if_splits)
        then show ?thesis by (simp add: list_all2_stop_filled_refl)
      next
        case False
        show ?thesis
        proof (cases eo)
          case (Some e)
          with Inr ne False inf Cons.prems have "ps' = ps1" by auto
          with f1 show ?thesis by simp
        next
          case None
          show ?thesis
          proof (cases "emit_steps viz (base_state c) (map (\<lambda>i. ps1 ! i) cps)")
            case (Inl e)
            with Inr ne False inf None Cons.prems have "ps' = ps1" by auto
            with f1 show ?thesis by simp
          next
            case (Inr steps)
            with \<open>sorted_by_start ps (component_indices ps c) = Inr cps\<close> ne False inf None
              Cons.prems
            have "compile_loop dry_run viz cs ps1 (dict_set out c steps) = (r, ps')" by auto
            from Cons.IH[OF this] f1 show ?thesis
              by (blast intro: list_all2_stop_filled_trans)
          qed
        qed
      qed
    qed
  qed
qed

text \<open>C1, as the code has it: \<^verbatim>\<open>compile\<close>, whether it returns or raises, never adds, removes
  or reorders procedure records and never changes the start, the component or the
  parameters of a record, nor a stop that was already set; the apparatus and the execution
  flags are left alone as well. What it does change, in place, is the stop of records
  whose stop was \<^verbatim>\<open>None\<close>: the inferred value is assigned to
  \<^verbatim>\<open>procedure["stop"]\<close>.\<close>

theorem compile_frame:
  assumes "compile self dry_run viz = (r, self')"
  shows "apparatus self' = apparatus self
       \<and> is_executing self' = is_executing self
       \<and> was_executed self' = was_executed self
       \<and> map start (procedures self') = map start (procedures self)
       \<and> map component (procedures self') = map component (procedures self)
       \<and> map params (procedures self') = map params (procedures self)
       \<and> (\<forall>i < length (procedures self).
            stop (procedures self ! i) \<noteq> None \<longrightarrow>
            stop (procedures self' ! i) = stop (procedures self ! i))"
proof -
  obtain r0 ps' where loop: "compile_loop dry_run viz (active_components (apparatus self))
      (procedures self) [] = (r0, ps')"
    by (cases "compile_loop dry_run viz (active_components (apparatus self)) (procedures self) []")
  have "self' = self \<or> self' = self\<lparr>procedures := ps'\<rparr>"
    using assms loop by (auto simp: compile_def Let_def split: if_splits)
  moreover have "list_all2 stop_filled (procedures self) (procedures self)"
    by (rule list_all2_stop_filled_refl)
  moreover have "list_all2 stop_filled (procedures self) ps'"
    using loop by (rule compile_loop_frame)
  ultimately have fr: "list_all2 stop_filled (procedures self) (procedures self')"
    and rest: "apparatus self' = apparatus self" "is_executing self' = is_executing self"
      "was_executed self' = was_executed self"
    by auto
  from fr have len: "length (procedures self') = length (procedures self)"
    and nth: "\<And>i. i < length (procedures self) \<Longrightarrow>
        stop_filled (procedures self ! i) (procedures self' ! i)"
    by (auto simp: list_all2_conv_all_nth)
  have "map start (procedures self') = map start (procedures self)"
    "map component (procedures self') = map component (procedures self)"
    "map params (procedures self') = map params (procedures self)"
    using len nth by (auto simp: list_eq_iff_nth_eq stop_filled_def)
  moreover have "\<forall>i < length (procedures self).
      stop (procedures self ! i) \<noteq> None \<longrightarrow>
      stop (procedures self' ! i) = stop (procedures self ! i)"
    using nth by (fastforce simp: stop_filled_def)
  ultimately show ?thesis using rest by simp
qed

text \<open>Witness for C1: the stop of the second record of the two-step protocol is set before
  the call and is the same after it.\<close>

theorem compile_frame_witness:
  "compile two_step_protocol True False =
     (Inr [(dev_A, [TimeStep (Some 0) [(''x'', VInt 1)], TimeStep (Some 10) [(''x'', VInt 2)],
                    TimeStep (Some 20) (base_state dev_A)])],
      two_step_protocol\<lparr>procedures :=
        [request dev_A (Some 0) (Some 10) 1, request dev_A (Some 10) (Some 20) 2]\<rparr>)
   \<and> (1::nat) < length (procedures two_step_protocol)
   \<and> stop (procedures two_step_protocol ! 1) \<noteq> None
   \<and> stop (procedures (two_step_protocol\<lparr>procedures :=
        [request dev_A (Some 0) (Some 10) 1, request dev_A (Some 10) (Some 20) 2]\<rparr>) ! 1)
       = stop (procedures two_step_protocol ! 1)"
proof -
  have c: "compile two_step_protocol True False =
     (Inr [(dev_A, [TimeStep (Some 0) [(''x'', VInt 1)], TimeStep (Some 10) [(''x'', VInt 2)],
                    TimeStep (Some 20) (base_state dev_A)])],
      two_step_protocol\<lparr>procedures :=
        [request dev_A (Some 0) (Some 10) 1, request dev_A (Some 10) (Some 20) 2]\<rparr>)"
    by code_simp
  have l: "(1::nat) < length (procedures two_step_protocol)"
    and s: "stop (procedures two_step_protocol ! 1) \<noteq> None"
    by (simp_all add: two_step_protocol_def protocol_of_def request_def)
  from compile_frame[OF c] have "\<forall>i < length (procedures two_step_protocol).
      stop (procedures two_step_protocol ! i) \<noteq> None \<longrightarrow>
      stop (procedures (two_step_protocol\<lparr>procedures :=
        [request dev_A (Some 0) (Some 10) 1, request dev_A (Some 10) (Some 20) 2]\<rparr>) ! i)
       = stop (procedures two_step_protocol ! i)"
    by blast
  with l s have "stop (procedures (two_step_protocol\<lparr>procedures :=
        [request dev_A (Some 0) (Some 10) 1, request dev_A (Some 10) (Some 20) 2]\<rparr>) ! 1)
       = stop (procedures two_step_protocol ! 1)"
    by blast
  with c l s show ?thesis by blast
qed

text \<open>Counterexample to C1 as stated: the first record of the two-step protocol has no stop
  before the call and the stop 10 after it.\<close>

theorem compile_mutates_stop:
  "map stop (procedures two_step_protocol) = [None, Some 20]
   \<and> map stop (procedures (snd (compile two_step_protocol True False))) = [Some 10, Some 20]"
  by code_simp

subsection \<open>When the protocol duration cannot be inferred\<close>

lemma component_indices_filter:
  "map (\<lambda>i. ps ! i) (component_indices ps c) = filter (\<lambda>p. component p = c) ps"
proof -
  have "filter (\<lambda>p. component p = c) (map (\<lambda>i. ps ! i) [0..<length ps])
      = map (\<lambda>i. ps ! i) (component_indices ps c)"
    by (simp add: component_indices_def filter_map comp_def)
  then show ?thesis by (simp add: map_nth)
qed

lemma component_indices_length:
  "length (component_indices ps c) = length (filter (\<lambda>p. component p = c) ps)"
  using component_indices_filter[of ps c] by (metis length_map)

lemma component_indices_set:
  "set (component_indices ps c) = {i. i < length ps \<and> component (ps ! i) = c}"
  by (auto simp: component_indices_def)


lemma component_indices_Nil:
  "\<forall>p\<in>set ps. component p \<noteq> c \<Longrightarrow> component_indices ps c = []"
  by (simp add: component_indices_def filter_empty_conv)

lemma compile_loop_skip:
  "\<forall>p\<in>set ps. component p \<notin> set pre \<Longrightarrow>
     compile_loop dry_run viz (pre @ cs) ps out = compile_loop dry_run viz cs ps out"
proof (induction pre)
  case Nil
  then show ?case by simp
next
  case (Cons a pre)
  then have "component_indices ps a = []"
    by (intro component_indices_Nil) auto
  with Cons show ?case by (simp add: sorted_by_start_def)
qed

lemma inferred_duration_all_None:
  "\<forall>p\<in>set ps. stop p = None \<Longrightarrow> inferred_duration ps = Inl UnresolvableDurationError"
  by (simp add: inferred_duration_def list_all_iff)

text \<open>C4 at a failing input: no record has a stop, the last record of device \<open>A\<close> is
  open-ended, and \<^verbatim>\<open>compile\<close> returns a timeline instead of raising. The stop 5 inferred
  for the first record from its successor's start is stored in the record before
  \<^verbatim>\<open>_inferred_duration\<close> reads the records, so the duration of the protocol is inferred
  from it, and the last record ends where it starts.\<close>

theorem compile_two_open_records:
  "map stop (procedures two_open_protocol) = [None, None]
   \<and> map component (procedures two_open_protocol) = [dev_A, dev_A]
   \<and> compile two_open_protocol True False =
       (Inr [(dev_A, [TimeStep (Some 0) [(''x'', VInt 1)], TimeStep (Some 5) [(''x'', VInt 2)],
                      TimeStep (Some 5) (base_state dev_A)])],
        two_open_protocol\<lparr>procedures :=
          [request dev_A (Some 0) (Some 5) 1, request dev_A (Some 5) (Some 5) 2]\<rparr>)"
  by code_simp

text \<open>In support of C4: the same two requests on two devices do raise the
  unresolvable-duration error.\<close>

theorem compile_two_open_devices:
  "compile two_devices_open_protocol True False =
     (Inl UnresolvableDurationError, two_devices_open_protocol)"
  by code_simp

text \<open>In support of C4: if the device names are pairwise distinct, no record has a stop, and
  the first active device (in iteration order) that has any record is valid and has
  exactly one record, then \<^verbatim>\<open>compile\<close> raises the unresolvable-duration error and
  leaves the records as they were. (\<open>pre\<close> are the devices that come before it; none of
  them has a record.)\<close>

theorem compile_unresolvable:
  assumes "active_components (apparatus self) = pre @ c # post"
    and "length (remdups (map name (pre @ c # post))) = length (pre @ c # post)"
    and "\<forall>p\<in>set (procedures self). stop p = None"
    and "\<forall>p\<in>set (procedures self). component p \<notin> set pre"
    and "length (filter (\<lambda>p. component p = c) (procedures self)) = 1"
    and "validate c dry_run"
  shows "compile self dry_run viz = (Inl UnresolvableDurationError, self)"
proof -
  let ?ps = "procedures self"
  from assms(5) obtain i where idx: "component_indices ?ps c = [i]"
    by (metis component_indices_length length_0_conv length_Suc_conv One_nat_def)
  then have "i \<in> set (component_indices ?ps c)" by simp
  then have "i < length ?ps" by (simp add: component_indices_set)
  then have "stop (?ps ! i) = None" using assms(3) by simp
  then have "infer_stops [i] ?ps = (Some UnresolvableDurationError, ?ps)"
    by (simp add: inferred_duration_all_None[OF assms(3)])
  moreover have "sorted_by_start ?ps [i] = Inr [i]"
    by (simp add: sorted_by_start_def)
  ultimately have "compile_loop dry_run viz (c # post) ?ps [] =
      (Inl UnresolvableDurationError, ?ps)"
    using idx assms(6) by simp
  then have "compile_loop dry_run viz (pre @ c # post) ?ps [] =
      (Inl UnresolvableDurationError, ?ps)"
    by (simp add: compile_loop_skip[OF assms(4)])
  then show ?thesis
    using assms(1,2) by (simp add: compile_def)
qed

text \<open>An instance: device \<open>B\<close> has no record, device \<open>A\<close> has one record without a
  stop.\<close>

theorem compile_unresolvable_witness:
  "active_components (apparatus open_ended_protocol) = [dev_B] @ dev_A # []
   \<and> length (remdups (map name ([dev_B] @ dev_A # []))) = length ([dev_B] @ dev_A # [])
   \<and> map stop (procedures open_ended_protocol) = [None]
   \<and> map component (procedures open_ended_protocol) = [dev_A]
   \<and> dev_A \<noteq> dev_B
   \<and> validate dev_A True
   \<and> compile open_ended_protocol True False = (Inl UnresolvableDurationError, open_ended_protocol)"
proof -
  have a: "active_components (apparatus open_ended_protocol) = [dev_B] @ dev_A # []"
    and n: "length (remdups (map name ([dev_B] @ dev_A # []))) = length ([dev_B] @ dev_A # [])"
    and v: "validate dev_A True" and d: "dev_A \<noteq> dev_B"
    by code_simp+
  have ps: "procedures open_ended_protocol = [request dev_A (Some 0) None 1]"
    by (simp add: open_ended_protocol_def protocol_of_def)
  have s: "\<forall>p\<in>set (procedures open_ended_protocol). stop p = None"
    and c: "\<forall>p\<in>set (procedures open_ended_protocol). component p \<notin> set [dev_B]"
    and l: "length (filter (\<lambda>p. component p = dev_A) (procedures open_ended_protocol)) = 1"
    using d by (simp_all add: ps request_def)
  from compile_unresolvable[OF a n s c l v, of False] a n v d show ?thesis
    by (simp add: ps request_def)
qed

subsection \<open>Running the inference loop again\<close>

lemma start_update_stop:
  "start (ps[i := (ps ! i)\<lparr>stop := d\<rparr>] ! k) = start (ps ! k)"
  by (cases "i < length ps"; cases "k = i") (simp_all add: list_update_beyond)

lemma inferred_duration_error:
  "inferred_duration ps = Inl e \<Longrightarrow> e = UnresolvableDurationError"
  by (auto simp: inferred_duration_def Let_def split: if_splits)

lemma infer_stops_rerun:
  assumes "infer_stops cps ps = (eo, ps1)"
    and "eo \<noteq> Some UnresolvableDurationError"
    and "\<forall>i\<in>set cps. start (ps2 ! i) = start (ps ! i)"
    and "\<forall>i\<in>set cps. stop (ps2 ! i) \<noteq> None"
  shows "infer_stops cps ps2 = (eo, ps2)"
  using assms
proof (induction cps ps arbitrary: eo ps1 rule: infer_stops.induct)
  case (1 ps)
  then show ?case by simp
next
  case (2 i ps)
  then show ?case
    by (auto split: if_splits sum.splits dest: inferred_duration_error)
next
  case (3 i j rest ps)
  have sj: "start (ps2 ! j) = start (ps ! j)" and si: "stop (ps2 ! i) \<noteq> None"
    using 3(5,6) by simp_all
  show ?case
  proof (cases "start (ps ! j) = Some 0")
    case True
    with 3(3) sj show ?thesis by simp
  next
    case zero: False
    have tail: "\<forall>k\<in>set (j # rest). stop (ps2 ! k) \<noteq> None"
      using 3(6) by simp
    show ?thesis
    proof (cases "start (ps ! j) \<noteq> None \<and> stop (ps ! i) = None")
      case True
      with zero 3(3) have run:
        "infer_stops (j # rest) (ps[i := (ps ! i)\<lparr>stop := start (ps ! j)\<rparr>]) = (eo, ps1)"
        by simp
      have "\<forall>k\<in>set (j # rest).
          start (ps2 ! k) = start (ps[i := (ps ! i)\<lparr>stop := start (ps ! j)\<rparr>] ! k)"
        using 3(5) by (simp add: start_update_stop)
      from 3(1)[OF zero True run 3(4) this tail] zero sj si show ?thesis by auto
    next
      case False
      with zero 3(3) have run: "infer_stops (j # rest) ps = (eo, ps1)" by auto
      have "\<forall>k\<in>set (j # rest). start (ps2 ! k) = start (ps ! k)"
        using 3(5) by simp
      from 3(2)[OF zero False run 3(4) this tail] zero sj si show ?thesis by auto
    qed
  qed
qed

lemma infer_stops_no_unresolvable:
  "\<forall>i\<in>set cps. stop (ps ! i) \<noteq> None \<Longrightarrow> infer_stops cps ps = (eo, ps1)
     \<Longrightarrow> eo \<noteq> Some UnresolvableDurationError"
proof (induction cps ps arbitrary: eo ps1 rule: infer_stops.induct)
  case (1 ps)
  then show ?case by simp
next
  case (2 i ps)
  then show ?case by (auto split: if_splits)
next
  case (3 i j rest ps)
  then show ?case by (auto split: if_splits)
qed

lemma infer_stops_settled:
  assumes "\<forall>i\<in>set cps. stop (ps ! i) \<noteq> None" and "infer_stops cps ps = (eo, ps1)"
  shows "ps1 = ps"
proof -
  have "infer_stops cps ps = (eo, ps)"
    using infer_stops_rerun[OF assms(2) infer_stops_no_unresolvable[OF assms], of ps] assms(1)
    by simp
  with assms(2) show ?thesis by simp
qed

subsection \<open>Sorting and emission\<close>

lemma sorted_by_start_set:
  "sorted_by_start ps idxs = Inr cps \<Longrightarrow> set cps = set idxs"
  by (auto simp: sorted_by_start_def split: if_splits)







subsection \<open>Compiling twice\<close>

lemma infer_stops_untouched:
  "infer_stops cps ps = (eo, ps1) \<Longrightarrow> k \<notin> set cps \<Longrightarrow> ps1 ! k = ps ! k"
proof (induction cps ps arbitrary: eo ps1 rule: infer_stops.induct)
  case (1 ps)
  then show ?case by simp
next
  case (2 i ps)
  then show ?case by (auto split: if_splits sum.splits)
next
  case (3 i j rest ps)
  from 3(4) have k: "k \<noteq> i" "k \<notin> set (j # rest)" by simp_all
  show ?case
  proof (cases "start (ps ! j) = Some 0")
    case True
    with 3(3) show ?thesis by simp
  next
    case zero: False
    show ?thesis
    proof (cases "start (ps ! j) \<noteq> None \<and> stop (ps ! i) = None")
      case True
      with zero 3(3) have
        "infer_stops (j # rest) (ps[i := (ps ! i)\<lparr>stop := start (ps ! j)\<rparr>]) = (eo, ps1)"
        by simp
      from 3(1)[OF zero True this k(2)] k(1) show ?thesis by simp
    next
      case False
      with zero 3(3) have "infer_stops (j # rest) ps = (eo, ps1)" by auto
      from 3(2)[OF zero False this k(2)] show ?thesis .
    qed
  qed
qed

lemma infer_stops_unresolvable:
  "infer_stops cps ps = (Some UnresolvableDurationError, ps1)
     \<Longrightarrow> \<exists>i\<in>set cps. stop (ps1 ! i) = None"
proof (induction cps ps arbitrary: ps1 rule: infer_stops.induct)
  case (1 ps)
  then show ?case by simp
next
  case (2 i ps)
  then show ?case by (auto split: if_splits sum.splits)
next
  case (3 i j rest ps)
  then show ?case by (auto split: if_splits)
qed

lemma stop_filled_nth:
  "list_all2 stop_filled ps ps' \<Longrightarrow> k < length ps \<Longrightarrow>
     start (ps' ! k) = start (ps ! k) \<and> component (ps' ! k) = component (ps ! k)"
  by (auto simp: list_all2_conv_all_nth stop_filled_def)

lemma stop_filled_length: "list_all2 stop_filled ps ps' \<Longrightarrow> length ps' = length ps"
  by (simp add: list_all2_lengthD)

lemma component_indices_cong:
  assumes "list_all2 stop_filled ps ps'"
  shows "component_indices ps' c = component_indices ps c"
  unfolding component_indices_def stop_filled_length[OF assms]
  by (rule filter_cong) (simp_all add: stop_filled_nth[OF assms])

lemma insort_key_cong_set:
  "\<forall>y\<in>insert x (set ys). f y = g y \<Longrightarrow> insort_key f x ys = insort_key g x ys"
  by (induction ys) simp_all

lemma sort_key_cong_set:
  "\<forall>x\<in>set xs. f x = g x \<Longrightarrow> sort_key f xs = sort_key g xs"
proof (induction xs)
  case Nil
  then show ?case by simp
next
  case (Cons x xs)
  then have "sort_key f xs = sort_key g xs" by simp
  moreover have "insort_key f x (sort_key g xs) = insort_key g x (sort_key g xs)"
    using Cons.prems by (intro insort_key_cong_set) simp
  ultimately show ?case by simp
qed

lemma sorted_by_start_cong:
  assumes "\<forall>i\<in>set idxs. start (ps' ! i) = start (ps ! i)"
  shows "sorted_by_start ps' idxs = sorted_by_start ps idxs"
proof -
  have "sort_key (\<lambda>i. the (start (ps' ! i))) idxs = sort_key (\<lambda>i. the (start (ps ! i))) idxs"
    using assms by (intro sort_key_cong_set) simp
  moreover have "list_ex (\<lambda>i. start (ps' ! i) = None) idxs = list_ex (\<lambda>i. start (ps ! i) = None) idxs"
    using assms by (simp add: list_ex_iff)
  ultimately show ?thesis by (simp add: sorted_by_start_def)
qed

lemma compile_loop_untouched:
  "compile_loop dry_run viz cs ps out = (r, ps') \<Longrightarrow> k < length ps \<Longrightarrow>
     component (ps ! k) \<notin> set cs \<Longrightarrow> ps' ! k = ps ! k"
proof (induction cs arbitrary: ps out)
  case Nil
  then show ?case by simp
next
  case (Cons c cs)
  have kc: "component (ps ! k) \<noteq> c" "component (ps ! k) \<notin> set cs"
    using Cons.prems(3) by auto
  show ?case
  proof (cases "sorted_by_start ps (component_indices ps c)")
    case (Inl e)
    with Cons.prems(1) show ?thesis by simp
  next
    case (Inr cps)
    have notin: "k \<notin> set cps"
      using sorted_by_start_set[OF Inr] kc(1) by (simp add: component_indices_set)
    obtain eo ps1 where inf: "infer_stops cps ps = (eo, ps1)"
      by (cases "infer_stops cps ps")
    have same: "ps1 ! k = ps ! k"
      using inf notin by (rule infer_stops_untouched)
    have fr: "list_all2 stop_filled ps ps1"
      using inf by (rule infer_stops_frame)
    consider (skip) "compile_loop dry_run viz cs ps out = (r, ps')"
      | (stay) "ps' = ps" | (stop) "ps' = ps1"
      | (go) steps where "compile_loop dry_run viz cs ps1 (dict_set out c steps) = (r, ps')"
      using Cons.prems(1) Inr inf
      by (auto split: if_splits option.splits sum.splits)
    then show ?thesis
    proof cases
      case skip
      from Cons.IH[OF this Cons.prems(2) kc(2)] show ?thesis .
    next
      case stay
      then show ?thesis by simp
    next
      case stop
      with same show ?thesis by simp
    next
      case go
      have "k < length ps1" "component (ps1 ! k) \<notin> set cs"
        using Cons.prems(2) kc(2) stop_filled_length[OF fr] same by simp_all
      from Cons.IH[OF go this] same show ?thesis by simp
    qed
  qed
qed

lemma compile_loop_rerun:
  assumes "distinct cs"
    and "compile_loop dry_run viz cs ps out = (r, psf)"
    and "\<forall>k<length psf. component (psf ! k) \<in> set cs \<longrightarrow> stop (psf ! k) \<noteq> None"
  shows "compile_loop dry_run viz cs psf out = (r, psf)"
  using assms
proof (induction cs arbitrary: ps out)
  case Nil
  then show ?case by simp
next
  case (Cons c cs)
  have dist: "distinct cs" "c \<notin> set cs" using Cons.prems(1) by simp_all
  have settled_cs: "\<forall>k<length psf. component (psf ! k) \<in> set cs \<longrightarrow> stop (psf ! k) \<noteq> None"
    using Cons.prems(3) by simp
  have fr: "list_all2 stop_filled ps psf"
    using Cons.prems(2) by (rule compile_loop_frame)
  have len: "length psf = length ps"
    using fr by (rule stop_filled_length)
  let ?idxs = "component_indices ps c"
  have idxs: "component_indices psf c = ?idxs"
    using fr by (rule component_indices_cong)
  have idx_mem: "\<forall>i\<in>set ?idxs. i < length ps \<and> component (ps ! i) = c"
    by (simp add: component_indices_set)
  have "\<forall>i\<in>set ?idxs. start (psf ! i) = start (ps ! i)"
    using idx_mem stop_filled_nth[OF fr] by simp
  then have srt: "sorted_by_start psf ?idxs = sorted_by_start ps ?idxs"
    by (rule sorted_by_start_cong)
  show ?case
  proof (cases "sorted_by_start ps ?idxs")
    case (Inl e)
    with Cons.prems(2) have "psf = ps" by simp
    with Cons.prems(2) show ?thesis by simp
  next
    case (Inr cps)
    have mem: "\<forall>i\<in>set cps. i < length ps \<and> component (ps ! i) = c"
      using sorted_by_start_set[OF Inr] idx_mem by simp
    have settled_c: "\<forall>i\<in>set cps. stop (psf ! i) \<noteq> None"
      using mem Cons.prems(3) len stop_filled_nth[OF fr] by simp
    have starts: "\<forall>i\<in>set cps. start (psf ! i) = start (ps ! i)"
      using mem stop_filled_nth[OF fr] by simp
    have no_conflict: "filter whole_duration (map (\<lambda>i. psf ! i) cps) = []"
      using settled_c by (auto simp: filter_empty_conv whole_duration_def)
    obtain eo ps1 where inf: "infer_stops cps ps = (eo, ps1)"
      by (cases "infer_stops cps ps")
    have fr1: "list_all2 stop_filled ps ps1"
      using inf by (rule infer_stops_frame)
    consider (skip) "cps = []" "compile_loop dry_run viz cs ps out = (r, psf)"
      | (stay) "psf = ps"
      | (raised) e where "cps \<noteq> []" "validate c dry_run" "eo = Some e" "r = Inl e" "psf = ps1"
      | (unemitted) e where "cps \<noteq> []" "validate c dry_run" "eo = None"
          "emit_steps viz (base_state c) (map (\<lambda>i. ps1 ! i) cps) = Inl e" "r = Inl e" "psf = ps1"
      | (go) steps where "cps \<noteq> []" "validate c dry_run" "eo = None"
          "emit_steps viz (base_state c) (map (\<lambda>i. ps1 ! i) cps) = Inr steps"
          "compile_loop dry_run viz cs ps1 (dict_set out c steps) = (r, psf)"
    proof -
      have step: "compile_loop dry_run viz (c # cs) ps out =
          (if cps = [] then compile_loop dry_run viz cs ps out
           else if \<not> validate c dry_run then (Inl InvalidDeviceError, ps)
           else if 1 < length (filter whole_duration (map (\<lambda>i. ps ! i) cps))
             then (Inl ConflictingWholeDurationError, ps)
           else (case eo of
                   Some e \<Rightarrow> (Inl e, ps1)
                 | None \<Rightarrow>
                    (case emit_steps viz (base_state c) (map (\<lambda>i. ps1 ! i) cps) of
                       Inl e \<Rightarrow> (Inl e, ps1)
                     | Inr steps \<Rightarrow> compile_loop dry_run viz cs ps1 (dict_set out c steps))))"
        using Inr inf by simp
      show thesis
      proof (cases "cps = []")
        case True
        with Cons.prems(2) step skip show ?thesis by simp
      next
        case ne: False
        show ?thesis
        proof (cases "\<not> validate c dry_run
            \<or> 1 < length (filter whole_duration (map (\<lambda>i. ps ! i) cps))")
          case True
          with Cons.prems(2) step ne have "psf = ps" by (auto split: if_splits)
          then show ?thesis by (rule stay)
        next
          case ok: False
          show ?thesis
          proof (cases eo)
            case (Some e)
            with Cons.prems(2) step ne ok have "r = Inl e" "psf = ps1" by simp_all
            with ne ok Some show ?thesis by (intro raised[of e]) simp_all
          next
            case None
            show ?thesis
            proof (cases "emit_steps viz (base_state c) (map (\<lambda>i. ps1 ! i) cps)")
              case (Inl e)
              with Cons.prems(2) step ne ok None have "r = Inl e" "psf = ps1" by simp_all
              with ne ok None Inl show ?thesis by (intro unemitted[of e]) simp_all
            next
              case (Inr steps)
              with Cons.prems(2) step ne ok None have
                "compile_loop dry_run viz cs ps1 (dict_set out c steps) = (r, psf)" by simp
              with ne ok None Inr show ?thesis by (intro go[of steps]) simp_all
            qed
          qed
        qed
      qed
    qed
    then show ?thesis
    proof cases
      case skip
      from Cons.IH[OF dist(1) skip(2) settled_cs] skip(1) Inr srt idxs show ?thesis
        by simp
    next
      case stay
      with Cons.prems(2) show ?thesis by simp
    next
      case raised
      have "e \<noteq> UnresolvableDurationError"
      proof
        assume "e = UnresolvableDurationError"
        with inf raised(3) have "infer_stops cps ps = (Some UnresolvableDurationError, ps1)"
          by simp
        then obtain i where "i \<in> set cps" "stop (ps1 ! i) = None"
          using infer_stops_unresolvable by blast
        with settled_c raised(5) show False by blast
      qed
      with raised(3) have "eo \<noteq> Some UnresolvableDurationError" by simp
      from infer_stops_rerun[OF inf this starts settled_c]
      show ?thesis
        using raised Inr srt idxs no_conflict by simp
    next
      case unemitted
      have "infer_stops cps psf = (None, psf)"
        using infer_stops_rerun[OF inf _ starts settled_c] unemitted(3) by simp
      then show ?thesis
        using unemitted Inr srt idxs no_conflict by simp
    next
      case go
      have again: "infer_stops cps psf = (None, psf)"
        using infer_stops_rerun[OF inf _ starts settled_c] go(3) by simp
      have "psf ! i = ps1 ! i" if "i \<in> set cps" for i
      proof -
        from that mem have "i < length ps1" "component (ps1 ! i) \<notin> set cs"
          using stop_filled_length[OF fr1] stop_filled_nth[OF fr1] dist(2) by simp_all
        with go(5) show ?thesis by (rule compile_loop_untouched)
      qed
      then have eq: "map (\<lambda>i. psf ! i) cps = map (\<lambda>i. ps1 ! i) cps"
        by (intro map_cong) simp_all
      have emit: "emit_steps viz (base_state c) (map (\<lambda>i. psf ! i) cps) = Inr steps"
        unfolding eq by (rule go(4))
      from Cons.IH[OF dist(1) go(5) settled_cs] again emit go(1,2) Inr srt idxs no_conflict
      show ?thesis by simp
    qed
  qed
qed

lemma compile_unfold:
  "compile self dry_run viz =
     (if length (remdups (map name (active_components (apparatus self))))
          \<noteq> length (active_components (apparatus self))
      then (Inl DuplicateDeviceNameError, self)
      else (fst (compile_loop dry_run viz (active_components (apparatus self)) (procedures self) []),
            self\<lparr>procedures :=
              snd (compile_loop dry_run viz (active_components (apparatus self)) (procedures self) [])\<rparr>))"
  by (simp add: compile_def Let_def split: prod.splits)

lemma distinct_names:
  "length (remdups (map name cs)) = length cs \<Longrightarrow> distinct cs"
proof -
  assume "length (remdups (map name cs)) = length cs"
  then have "length (remdups (map name cs)) = length (map name cs)" by simp
  then have "remdups (map name cs) = map name cs" by (simp only: length_remdups_eq)
  then have "distinct (map name cs)" by (simp only: remdups_id_iff_distinct)
  then show ?thesis by (simp add: distinct_map)
qed

text \<open>C2 at a failing input: two calls of \<^verbatim>\<open>compile\<close> in a row on the same protocol
  return different timelines for device \<open>A\<close>. In the first call the stop of the record of
  \<open>A\<close> is inferred while the only stop known is 0: the sort key of
  \<^verbatim>\<open>_inferred_duration\<close> treats \<^verbatim>\<open>None\<close> as 0, so the last element of the sorted
  stops is \<^verbatim>\<open>None\<close>, and the rest instruction of \<open>A\<close> gets the time \<^verbatim>\<open>None\<close>. The same
  call then stores the stop 5 in two records of \<open>B\<close>, and the second call infers 5 for
  \<open>A\<close>.\<close>

theorem compile_twice_differs:
  "fst (compile rerun_protocol True False) =
     Inr [(dev_A, [TimeStep (Some 0) [(''x'', VInt 2)], TimeStep None (base_state dev_A)]),
          (dev_B, [TimeStep (Some 0) [(''x'', VInt 1)], TimeStep (Some 0) (base_state dev_B),
                   TimeStep (Some 1) [(''x'', VInt 3)], TimeStep (Some 5) [(''x'', VInt 4)],
                   TimeStep (Some 5) (base_state dev_B)])]
   \<and> fst (compile (snd (compile rerun_protocol True False)) True False) =
     Inr [(dev_A, [TimeStep (Some 0) [(''x'', VInt 2)], TimeStep (Some 5) (base_state dev_A)]),
          (dev_B, [TimeStep (Some 0) [(''x'', VInt 1)], TimeStep (Some 0) (base_state dev_B),
                   TimeStep (Some 1) [(''x'', VInt 3)], TimeStep (Some 5) [(''x'', VInt 4)],
                   TimeStep (Some 5) (base_state dev_B)])]"
  by code_simp

text \<open>In support of C2: a second call of \<^verbatim>\<open>compile\<close>, on the protocol as the first call
  left it and with the same arguments, returns the same result and changes nothing any
  more whenever the first call left no record of an active device without a stop.\<close>

theorem compile_twice:
  assumes "compile self dry_run viz = (r, self')"
    and "\<forall>p\<in>set (procedures self').
           component p \<in> set (active_components (apparatus self)) \<longrightarrow> stop p \<noteq> None"
  shows "compile self' dry_run viz = (r, self')"
proof (cases "length (remdups (map name (active_components (apparatus self))))
    = length (active_components (apparatus self))")
  case False
  with assms(1) have "self' = self" by (simp add: compile_unfold)
  with assms(1) show ?thesis by simp
next
  case True
  let ?acs = "active_components (apparatus self)"
  obtain r0 psf where loop: "compile_loop dry_run viz ?acs (procedures self) [] = (r0, psf)"
    by (cases "compile_loop dry_run viz ?acs (procedures self) []")
  with True assms(1) have r: "r0 = r" and self': "self' = self\<lparr>procedures := psf\<rparr>"
    by (simp_all add: compile_unfold)
  have dist: "distinct ?acs"
    using True by (rule distinct_names)
  have "\<forall>k<length psf. component (psf ! k) \<in> set ?acs \<longrightarrow> stop (psf ! k) \<noteq> None"
    using assms(2) by (simp add: self')
  with dist loop have "compile_loop dry_run viz ?acs psf [] = (r0, psf)"
    by (rule compile_loop_rerun)
  with True show ?thesis by (simp add: compile_unfold r self')
qed

text \<open>An instance: the two-step protocol compiled twice.\<close>

theorem compile_twice_witness:
  "compile two_step_protocol True False =
     (Inr [(dev_A, [TimeStep (Some 0) [(''x'', VInt 1)], TimeStep (Some 10) [(''x'', VInt 2)],
                    TimeStep (Some 20) (base_state dev_A)])],
      protocol_of [dev_A] [request dev_A (Some 0) (Some 10) 1, request dev_A (Some 10) (Some 20) 2])
   \<and> map stop (procedures (protocol_of [dev_A]
        [request dev_A (Some 0) (Some 10) 1, request dev_A (Some 10) (Some 20) 2]))
       = [Some 10, Some 20]
   \<and> compile (protocol_of [dev_A]
        [request dev_A (Some 0) (Some 10) 1, request dev_A (Some 10) (Some 20) 2]) True False =
     (Inr [(dev_A, [TimeStep (Some 0) [(''x'', VInt 1)], TimeStep (Some 10) [(''x'', VInt 2)],
                    TimeStep (Some 20) (base_state dev_A)])],
      protocol_of [dev_A] [request dev_A (Some 0) (Some 10) 1, request dev_A (Some 10) (Some 20) 2])"
proof -
  have c: "compile two_step_protocol True False =
     (Inr [(dev_A, [TimeStep (Some 0) [(''x'', VInt 1)], TimeStep (Some 10) [(''x'', VInt 2)],
                    TimeStep (Some 20) (base_state dev_A)])],
      protocol_of [dev_A] [request dev_A (Some 0) (Some 10) 1, request dev_A (Some 10) (Some 20) 2])"
    by code_simp
  have s: "\<forall>p\<in>set (procedures (protocol_of [dev_A]
        [request dev_A (Some 0) (Some 10) 1, request dev_A (Some 10) (Some 20) 2])).
      component p \<in> set (active_components (apparatus two_step_protocol)) \<longrightarrow> stop p \<noteq> None"
    by (simp add: protocol_of_def request_def)
  have m: "map stop (procedures (protocol_of [dev_A]
        [request dev_A (Some 0) (Some 10) 1, request dev_A (Some 10) (Some 20) 2]))
       = [Some 10, Some 20]"
    by (simp add: protocol_of_def request_def)
  note again = compile_twice[OF c s]
  show ?thesis
    using c m again by (intro conjI) assumption+
qed

subsection \<open>The order of a compiled timeline\<close>














subsection \<open>The check for two whole-duration records\<close>

text \<open>C5 at a failing input: two requests for the whole protocol on one device, as
  \<^verbatim>\<open>add\<close> stores them. \<^verbatim>\<open>_add_single\<close> parses the start of every request (the default
  is \<^verbatim>\<open>"0 seconds"\<close>), so each record has the start 0 and no stop, and \<^verbatim>\<open>compile\<close>
  raises the ambiguous-start error. The check for two whole-duration records, which looks
  for records whose start is \<^verbatim>\<open>None\<close>, does not see them.\<close>

theorem two_whole_duration_requests:
  "add_single toy_ureg (protocol_of [dev_A] []) dev_A (Some (TimeStr ''0 seconds'')) None None
       [(''x'', VInt 1)]
     = (Inr (), protocol_of [dev_A] [request dev_A (Some 0) None 1])
   \<and> add_single toy_ureg (protocol_of [dev_A] [request dev_A (Some 0) None 1]) dev_A
       (Some (TimeStr ''0 seconds'')) None None [(''x'', VInt 2)]
     = (Inr (), whole_duration_twice)
   \<and> compile whole_duration_twice True False = (Inl AmbiguousStartError, whole_duration_twice)"
  by code_simp

lemma sorted_by_start_whole_duration:
  assumes "sorted_by_start ps idxs = Inr cps"
  shows "length (filter whole_duration (map (\<lambda>i. ps ! i) cps)) \<le> 1"
proof (cases "length idxs < 2")
  case True
  with assms have "length cps < 2" by (simp add: sorted_by_start_def)
  moreover have "length (filter whole_duration (map (\<lambda>i. ps ! i) cps)) \<le> length cps"
    by (metis length_filter_le length_map)
  ultimately show ?thesis by linarith
next
  case False
  with assms have "\<forall>i\<in>set cps. start (ps ! i) \<noteq> None"
    by (auto simp: sorted_by_start_def list_ex_iff split: if_splits)
  then have "filter whole_duration (map (\<lambda>i. ps ! i) cps) = []"
    by (auto simp: filter_empty_conv whole_duration_def)
  then show ?thesis by simp
qed

lemma infer_stops_errors:
  "infer_stops cps ps = (Some e, ps1) \<Longrightarrow>
     e = AmbiguousStartError \<or> e = UnresolvableDurationError"
proof (induction cps ps arbitrary: ps1 rule: infer_stops.induct)
  case (1 ps)
  then show ?case by simp
next
  case (2 i ps)
  then show ?case
    by (auto split: if_splits sum.splits dest: inferred_duration_error)
next
  case (3 i j rest ps)
  then show ?case by (auto split: if_splits)
qed

lemma gap_closed_errors: "gap_closed p rest = Inl e \<Longrightarrow> e = PyTypeError"
  by (cases rest; cases "stop p"; cases "start (hd rest)") simp_all

lemma emit_steps_errors: "emit_steps viz base qs = Inl e \<Longrightarrow> e = PyTypeError"
proof (induction qs)
  case Nil
  then show ?case by simp
next
  case (Cons p rest)
  then show ?case
    by (auto simp del: gap_closed.simps split: if_splits sum.splits dest: gap_closed_errors)
qed

lemma compile_loop_no_conflict_error:
  "compile_loop dry_run viz cs ps out = (r, ps') \<Longrightarrow> r \<noteq> Inl ConflictingWholeDurationError"
proof (induction cs arbitrary: ps out)
  case Nil
  then show ?case by auto
next
  case (Cons c cs)
  show ?case
  proof (cases "sorted_by_start ps (component_indices ps c)")
    case (Inl e)
    then have "e = PyTypeError"
      by (auto simp: sorted_by_start_def split: if_splits)
    with Inl Cons.prems show ?thesis by auto
  next
    case (Inr cps)
    have few: "\<not> 1 < length (filter whole_duration (map (\<lambda>i. ps ! i) cps))"
      using sorted_by_start_whole_duration[OF Inr] by simp
    obtain eo ps1 where inf: "infer_stops cps ps = (eo, ps1)"
      by (cases "infer_stops cps ps")
    have step: "compile_loop dry_run viz (c # cs) ps out =
        (if cps = [] then compile_loop dry_run viz cs ps out
         else if \<not> validate c dry_run then (Inl InvalidDeviceError, ps)
         else (case eo of
                 Some e \<Rightarrow> (Inl e, ps1)
               | None \<Rightarrow>
                  (case emit_steps viz (base_state c) (map (\<lambda>i. ps1 ! i) cps) of
                     Inl e \<Rightarrow> (Inl e, ps1)
                   | Inr steps \<Rightarrow> compile_loop dry_run viz cs ps1 (dict_set out c steps))))"
      using Inr inf few by simp
    show ?thesis
    proof (cases "cps = []")
      case True
      with Cons.prems step have "compile_loop dry_run viz cs ps out = (r, ps')" by simp
      then show ?thesis by (rule Cons.IH)
    next
      case ne: False
      show ?thesis
      proof (cases eo)
        case (Some e)
        with inf have "e = AmbiguousStartError \<or> e = UnresolvableDurationError"
          using infer_stops_errors by blast
        with Cons.prems step ne Some show ?thesis by (auto split: if_splits)
      next
        case None
        show ?thesis
        proof (cases "emit_steps viz (base_state c) (map (\<lambda>i. ps1 ! i) cps)")
          case (Inl e)
          then have "e = PyTypeError" by (rule emit_steps_errors)
          with Cons.prems step ne None Inl show ?thesis by (auto split: if_splits)
        next
          case (Inr steps)
          show ?thesis
          proof (cases "validate c dry_run")
            case True
            with Cons.prems step ne None Inr have
              "compile_loop dry_run viz cs ps1 (dict_set out c steps) = (r, ps')" by simp
            then show ?thesis by (rule Cons.IH)
          next
            case False
            with Cons.prems step ne show ?thesis by auto
          qed
        qed
      qed
    qed
  qed
qed

text \<open>In support of C5: \<^verbatim>\<open>compile\<close> never raises the error for two whole-duration records,
  whatever the protocol: two records of one device cannot both have the start \<^verbatim>\<open>None\<close>
  once the sort has returned. And a record that \<^verbatim>\<open>_add_single\<close> appends always has a
  start (\<open>add_single_start\<close> above).\<close>

theorem compile_never_conflicting_whole_duration:
  "fst (compile self dry_run viz) \<noteq> Inl ConflictingWholeDurationError"
proof -
  obtain r ps' where loop:
    "compile_loop dry_run viz (active_components (apparatus self)) (procedures self) [] = (r, ps')"
    by (cases "compile_loop dry_run viz (active_components (apparatus self)) (procedures self) []")
  then have "r \<noteq> Inl ConflictingWholeDurationError"
    by (rule compile_loop_no_conflict_error)
  with loop show ?thesis by (simp add: compile_unfold)
qed

end
